theory Spec2Isabelle
  imports Complex_Main "HOL-Library.Word"
begin

section \<open>Values exchanged with the handlers\<close>

text \<open>
  A JavaScript string is a sequence of UTF-16 code units. \<open>String.prototype.trim\<close>
  removes the WhiteSpace and LineTerminator code points of ECMAScript from both ends;
  all of them lie in the basic plane, so they are single code units.
\<close>

type_synonym js_string = "16 word list"

definition isWhiteSpace :: "16 word \<Rightarrow> bool" where
  "isWhiteSpace c \<longleftrightarrow>
     c = 0x0009 \<or> c = 0x000A \<or> c = 0x000B \<or> c = 0x000C \<or> c = 0x000D \<or>
     c = 0x0020 \<or> c = 0x00A0 \<or> c = 0x1680 \<or> (0x2000 \<le> c \<and> c \<le> 0x200A) \<or>
     c = 0x2028 \<or> c = 0x2029 \<or> c = 0x202F \<or> c = 0x205F \<or> c = 0x3000 \<or>
     c = 0xFEFF"

definition trim :: "js_string \<Rightarrow> js_string" where
  "trim s = rev (dropWhile isWhiteSpace (rev (dropWhile isWhiteSpace s)))"

text \<open>JSON values, for the structured \<open>input\<close> configuration of a question.\<close>

datatype json =
    JNull
  | JBool bool
  | JNum rat
  | JStr js_string
  | JArr "json list"
  | JObj "(js_string \<times> json) list"

text \<open>
  The text \<open>JSON.stringify\<close> returns for a record, kept symbolic: the column
  \<open>input_config\<close> holds such a text, and \<open>JSON.parse\<close> gives the record back.
\<close>

datatype json_text = JSON_stringify "(js_string \<times> json) list"

fun JSON_parse :: "json_text \<Rightarrow> (js_string \<times> json) list" where
  "JSON_parse (JSON_stringify v) = v"

text \<open>
  \<open>OptionIn\<close> and \<open>QuestionIn\<close> of route.ts, with the values their declarations
  admit.

  The id of a question is declared \<open>id?: number\<close>: the key is absent, so that
  \<open>body.id\<close> is \<open>undefined\<close>, or it holds a number. \<open>qi_id b = None\<close> is the absent key
  and nothing else: it is the test \<open>body.id === undefined\<close> of PUT. The declaration has
  no \<open>null\<close> for this field, and the model has no value for it.

  Every other optional field is read only through \<open>??\<close>, \<open>?.\<close> or a truthiness test,
  which treat \<open>undefined\<close> and \<open>null\<close> alike; there \<open>None\<close> is either of the two. This
  holds for the id of an option too (\<open>o.id ?? null\<close>, \<open>o.id ?? Number(...)\<close>).

  Ids are integers in the range where \<open>Number\<close> of a row id is exact.
\<close>

record OptionIn =
  oi_id :: "int option"
  oi_label :: js_string
  oi_next_question_id :: "int option"
  oi_price_modifier :: "rat option"

record QuestionIn =
  qi_id :: "int option"
  qi_field :: js_string
  qi_text :: js_string
  qi_subtext :: "js_string option"
  qi_type :: js_string
  qi_hint :: "js_string option"
  qi_validationKey :: "js_string option"
  qi_input :: "(js_string \<times> json) list option"
  qi_next_question_id :: "int option"
  qi_options :: "OptionIn list option"

section \<open>The relational store\<close>

text \<open>The two tables: \<open>questions\<close> and \<open>question_options\<close>.\<close>

record question_row =
  q_id :: int
  q_field :: js_string
  q_text :: js_string
  q_subtext :: js_string
  q_type :: js_string
  q_hint :: js_string
  q_validation_key :: "js_string option"
  q_input_config :: "json_text option"
  q_next_question_id :: "int option"

record option_row =
  o_id :: int
  o_question_id :: int
  o_label :: js_string
  o_next_question_id :: "int option"
  o_price_modifier :: rat

text \<open>
  The statements the handlers send, with their bound arguments in the order of the
  \<open>?\<close> placeholders.
\<close>

datatype stmt =
    SelectQuestionsWithOptions
  | InsertQuestion js_string js_string js_string js_string js_string
      "js_string option" "json_text option" "int option"
  | InsertOption int js_string "int option" rat
  | SelectQuestionById int
  | UpdateQuestion js_string js_string js_string js_string js_string
      "js_string option" "json_text option" "int option" int
  | UpsertOption "int option" int js_string "int option" rat
  | DeleteOptionsNotIn int "int list"
  | DeleteQuestion int

text \<open>
  The state of the store: the rows of both tables in row order, the largest row id each
  table ever held (what SQLite keeps in \<open>sqlite_sequence\<close>), the connection's last
  insert row id, and a journal of the statements executed so far, oldest first. The
  journal is a ghost field: it records what the handlers did, in order.
\<close>

record store =
  questions :: "question_row list"
  question_options :: "option_row list"
  seq_questions :: int
  seq_question_options :: int
  last_insert_rowid :: int
  journal :: "stmt list"

text \<open>What a rejected promise carries: an \<open>Error\<close> with its message, or anything else.\<close>

datatype thrown = Error string | NotAnError

text \<open>
  The store handle \<open>client\<close> comes from lib/db, which is not among the sources, and
  neither are the table declarations. They are parameters: which statements the store
  rejects in which state (constraint violations, connection failures), whether the ids
  are declared AUTOINCREMENT, and whether deleting a question cascades to its options.
\<close>

record client =
  rejects :: "store \<Rightarrow> stmt \<Rightarrow> thrown option"
  autoincrement :: bool
  on_delete_cascade :: bool

text \<open>
  A result row has the columns of \<open>questions\<close> and, for the listing query only, the
  column \<open>options\<close>: the JSON array text of \<open>json_group_array\<close>, kept as the list of
  objects it denotes.
\<close>

record option_obj =
  oo_id :: "int option"
  oo_label :: "js_string option"
  oo_next_question_id :: "int option"
  oo_price_modifier :: "rat option"

datatype row = Row question_row "option_obj list option"

record ResultSet =
  rows :: "row list"
  lastInsertRowid :: int

subsection \<open>Row ids\<close>

text \<open>
  Modelled from the spec: the table declarations are missing; the spec has \<open>id\<close> as an
  integer surrogate key assigned by the store, and route.ts reads the new id from
  \<open>lastInsertRowid\<close>, so \<open>id\<close> is the row id. SQLite assigns to an INTEGER PRIMARY KEY
  inserted as NULL the id 1 in an empty table and otherwise one more than the largest
  id present; with AUTOINCREMENT the id is, in addition, larger than every id the table
  ever held.
\<close>

definition new_rowid :: "bool \<Rightarrow> int \<Rightarrow> int list \<Rightarrow> int" where
  "new_rowid autoinc seq ids =
     (let v = (if ids = [] then 1 else Max (set ids) + 1)
      in if autoinc then max v (seq + 1) else v)"

subsection \<open>The effect of each statement on the tables\<close>

definition insert_question :: "client \<Rightarrow> store \<Rightarrow> js_string \<Rightarrow> js_string \<Rightarrow> js_string \<Rightarrow>
    js_string \<Rightarrow> js_string \<Rightarrow> js_string option \<Rightarrow> json_text option \<Rightarrow> int option \<Rightarrow>
    ResultSet \<times> store" where
  "insert_question c s f t st ty h vk ic nq =
     (let i = new_rowid (autoincrement c) (seq_questions s) (map q_id (questions s))
      in (\<lparr>rows = [], lastInsertRowid = i\<rparr>,
          s\<lparr>questions := questions s @
               [\<lparr>q_id = i, q_field = f, q_text = t, q_subtext = st, q_type = ty, q_hint = h,
                 q_validation_key = vk, q_input_config = ic, q_next_question_id = nq\<rparr>],
            seq_questions := max (seq_questions s) i,
            last_insert_rowid := i\<rparr>))"

definition insert_option_row :: "store \<Rightarrow> int \<Rightarrow> int \<Rightarrow> js_string \<Rightarrow> int option \<Rightarrow> rat \<Rightarrow>
    ResultSet \<times> store" where
  "insert_option_row s i qid l nq pm =
     (\<lparr>rows = [], lastInsertRowid = i\<rparr>,
      s\<lparr>question_options := question_options s @
           [\<lparr>o_id = i, o_question_id = qid, o_label = l, o_next_question_id = nq,
             o_price_modifier = pm\<rparr>],
        seq_question_options := max (seq_question_options s) i,
        last_insert_rowid := i\<rparr>)"

definition new_option_id :: "client \<Rightarrow> store \<Rightarrow> int" where
  "new_option_id c s =
     new_rowid (autoincrement c) (seq_question_options s) (map o_id (question_options s))"

definition insert_option :: "client \<Rightarrow> store \<Rightarrow> int \<Rightarrow> js_string \<Rightarrow> int option \<Rightarrow> rat \<Rightarrow>
    ResultSet \<times> store" where
  "insert_option c s qid l nq pm = insert_option_row s (new_option_id c s) qid l nq pm"

definition select_question_by_id :: "store \<Rightarrow> int \<Rightarrow> ResultSet \<times> store" where
  "select_question_by_id s i =
     (\<lparr>rows = map (\<lambda>q. Row q None) (filter (\<lambda>q. q_id q = i) (questions s)),
       lastInsertRowid = last_insert_rowid s\<rparr>, s)"

definition update_question :: "store \<Rightarrow> js_string \<Rightarrow> js_string \<Rightarrow> js_string \<Rightarrow>
    js_string \<Rightarrow> js_string \<Rightarrow> js_string option \<Rightarrow> json_text option \<Rightarrow> int option \<Rightarrow> int \<Rightarrow>
    ResultSet \<times> store" where
  "update_question s f t st ty h vk ic nq i =
     (\<lparr>rows = [], lastInsertRowid = last_insert_rowid s\<rparr>,
      s\<lparr>questions := map (\<lambda>q. if q_id q = i
             then q\<lparr>q_field := f, q_text := t, q_subtext := st, q_type := ty, q_hint := h,
                    q_validation_key := vk, q_input_config := ic, q_next_question_id := nq\<rparr>
             else q) (questions s)\<rparr>)"

text \<open>
  \<open>INSERT ... ON CONFLICT(id) DO UPDATE\<close>: a NULL id is assigned by the store; an id
  that no row has is inserted as given, with the bound question id; an id that a row has
  makes the insert an update of label, next question and price modifier of that row,
  and leaves its \<open>question_id\<close> as it is.
\<close>

definition upsert_option :: "client \<Rightarrow> store \<Rightarrow> int option \<Rightarrow> int \<Rightarrow> js_string \<Rightarrow>
    int option \<Rightarrow> rat \<Rightarrow> ResultSet \<times> store" where
  "upsert_option c s ido qid l nq pm =
     (case ido of
        None \<Rightarrow> insert_option c s qid l nq pm
      | Some i \<Rightarrow>
          if i \<in> set (map o_id (question_options s))
          then (\<lparr>rows = [], lastInsertRowid = last_insert_rowid s\<rparr>,
                s\<lparr>question_options := map (\<lambda>r. if o_id r = i
                       then r\<lparr>o_label := l, o_next_question_id := nq, o_price_modifier := pm\<rparr>
                       else r) (question_options s)\<rparr>)
          else insert_option_row s i qid l nq pm)"

definition delete_options_not_in :: "store \<Rightarrow> int \<Rightarrow> int list \<Rightarrow> ResultSet \<times> store" where
  "delete_options_not_in s qid ids =
     (\<lparr>rows = [], lastInsertRowid = last_insert_rowid s\<rparr>,
      s\<lparr>question_options :=
           filter (\<lambda>r. \<not> (o_question_id r = qid \<and> o_id r \<notin> set ids)) (question_options s)\<rparr>)"

definition delete_question :: "client \<Rightarrow> store \<Rightarrow> int \<Rightarrow> ResultSet \<times> store" where
  "delete_question c s i =
     (\<lparr>rows = [], lastInsertRowid = last_insert_rowid s\<rparr>,
      s\<lparr>questions := filter (\<lambda>q. q_id q \<noteq> i) (questions s),
        question_options :=
          (if on_delete_cascade c \<and> i \<in> set (map q_id (questions s))
           then filter (\<lambda>r. o_question_id r \<noteq> i) (question_options s)
           else question_options s)\<rparr>)"

subsection \<open>The listing query\<close>

text \<open>
  \<open>questions q LEFT JOIN question_options o ON q.id = o.question_id\<close>: every question
  row paired with each of its option rows, and a question without option rows paired
  once with an all-NULL option row.
\<close>

definition left_join :: "question_row list \<Rightarrow> option_row list \<Rightarrow>
    (question_row \<times> option_row option) list" where
  "left_join qs os =
     concat (map (\<lambda>q. case filter (\<lambda>r. q_id q = o_question_id r) os of
                        [] \<Rightarrow> [(q, None)]
                      | ms \<Rightarrow> map (\<lambda>r. (q, Some r)) ms) qs)"

text \<open>\<open>json_object('id', o.id, 'label', o.label, ...)\<close>: NULL columns become JSON null.\<close>

fun json_object :: "option_row option \<Rightarrow> option_obj" where
  "json_object None =
     \<lparr>oo_id = None, oo_label = None, oo_next_question_id = None, oo_price_modifier = None\<rparr>"
| "json_object (Some r) =
     \<lparr>oo_id = Some (o_id r), oo_label = Some (o_label r),
      oo_next_question_id = o_next_question_id r,
      oo_price_modifier = Some (o_price_modifier r)\<rparr>"

text \<open>
  \<open>GROUP BY q.id\<close> with \<open>json_group_array\<close>: one result row per question id, carrying
  the question columns and the array of one object per joined row of the group.
\<close>

definition group_by_q_id :: "(question_row \<times> option_row option) list \<Rightarrow>
    (question_row \<times> option_row option) list list" where
  "group_by_q_id joined =
     map (\<lambda>i. filter (\<lambda>(q, r). q_id q = i) joined) (remdups (map (\<lambda>(q, r). q_id q) joined))"

definition select_questions_with_options :: "store \<Rightarrow> ResultSet \<times> store" where
  "select_questions_with_options s =
     (\<lparr>rows = concat (map (\<lambda>g. case g of
                                  [] \<Rightarrow> []
                                | (q, r) # rest \<Rightarrow> [Row q (Some (map (\<lambda>(q', r'). json_object r') g))])
                          (group_by_q_id (left_join (questions s) (question_options s)))),
       lastInsertRowid = last_insert_rowid s\<rparr>, s)"

subsection \<open>Executing a statement\<close>

fun run :: "client \<Rightarrow> store \<Rightarrow> stmt \<Rightarrow> ResultSet \<times> store" where
  "run c s SelectQuestionsWithOptions = select_questions_with_options s"
| "run c s (InsertQuestion f t st ty h vk ic nq) = insert_question c s f t st ty h vk ic nq"
| "run c s (InsertOption qid l nq pm) = insert_option c s qid l nq pm"
| "run c s (SelectQuestionById i) = select_question_by_id s i"
| "run c s (UpdateQuestion f t st ty h vk ic nq i) = update_question s f t st ty h vk ic nq i"
| "run c s (UpsertOption ido qid l nq pm) = upsert_option c s ido qid l nq pm"
| "run c s (DeleteOptionsNotIn qid ids) = delete_options_not_in s qid ids"
| "run c s (DeleteQuestion i) = delete_question c s i"

text \<open>
  \<open>client.execute\<close>: a rejected statement throws and leaves the store as it was; an
  accepted one takes effect and is appended to the journal.
\<close>

definition execute :: "client \<Rightarrow> store \<Rightarrow> stmt \<Rightarrow> thrown + (ResultSet \<times> store)" where
  "execute c s st =
     (case rejects c s st of
        Some err \<Rightarrow> Inl err
      | None \<Rightarrow> (case run c s st of (res, s') \<Rightarrow> Inr (res, s'\<lparr>journal := journal s' @ [st]\<rparr>)))"

section \<open>Responses\<close>

record QuestionOut =
  qo_id :: int
  qo_field :: js_string
  qo_text :: js_string
  qo_subtext :: js_string
  qo_type :: js_string
  qo_hint :: js_string
  qo_validationKey :: "js_string option"
  qo_input :: "(js_string \<times> json) list option"
  qo_next_question_id :: "int option"
  qo_options :: "option_obj list"

datatype json_body =
    ErrorBody string
  | OkTrue
  | QuestionList "QuestionOut list"
  | CreatedRow "row option"

record response =
  status :: nat
  body :: json_body

definition NextResponse_json :: "json_body \<Rightarrow> nat \<Rightarrow> response" where
  "NextResponse_json b st = \<lparr>status = st, body = b\<rparr>"

text \<open>The \<open>catch\<close> block shared by all four handlers.\<close>

definition server_error :: "thrown \<Rightarrow> response" where
  "server_error err =
     NextResponse_json
       (ErrorBody (case err of Error message \<Rightarrow> message | NotAnError \<Rightarrow> ''Internal Server Error''))
       500"

section \<open>The handlers of route.ts\<close>

subsection \<open>GET\<close>

fun to_question :: "row \<Rightarrow> QuestionOut" where
  "to_question (Row q opts) =
     \<lparr>qo_id = q_id q, qo_field = q_field q, qo_text = q_text q, qo_subtext = q_subtext q,
      qo_type = q_type q, qo_hint = q_hint q, qo_validationKey = q_validation_key q,
      qo_input = (case q_input_config q of Some t \<Rightarrow> Some (JSON_parse t) | None \<Rightarrow> None),
      qo_next_question_id = q_next_question_id q,
      qo_options = (case opts of Some arr \<Rightarrow> arr | None \<Rightarrow> [])\<rparr>"

definition GET :: "client \<Rightarrow> store \<Rightarrow> response \<times> store" where
  "GET c s =
     (case execute c s SelectQuestionsWithOptions of
        Inl err \<Rightarrow> (server_error err, s)
      | Inr (result, s') \<Rightarrow> (NextResponse_json (QuestionList (map to_question (rows result))) 200, s'))"

subsection \<open>Validation shared by POST and PUT\<close>

text \<open>\<open>body.options?.some(opt => !opt.label.trim())\<close>\<close>

definition some_blank_label :: "QuestionIn \<Rightarrow> bool" where
  "some_blank_label b =
     (case qi_options b of
        None \<Rightarrow> False
      | Some opts \<Rightarrow> list_ex (\<lambda>opt. trim (oi_label opt) = []) opts)"

definition or_empty :: "js_string option \<Rightarrow> js_string" where
  "or_empty x = (case x of Some v \<Rightarrow> v | None \<Rightarrow> [])"

definition or_zero :: "rat option \<Rightarrow> rat" where
  "or_zero x = (case x of Some v \<Rightarrow> v | None \<Rightarrow> 0)"

definition input_config_of :: "QuestionIn \<Rightarrow> json_text option" where
  "input_config_of b = (case qi_input b of Some v \<Rightarrow> Some (JSON_stringify v) | None \<Rightarrow> None)"

subsection \<open>POST\<close>

fun insert_options :: "client \<Rightarrow> store \<Rightarrow> int \<Rightarrow> OptionIn list \<Rightarrow> thrown option \<times> store" where
  "insert_options c s qId [] = (None, s)"
| "insert_options c s qId (opt # rest) =
     (case execute c s (InsertOption qId (oi_label opt) (oi_next_question_id opt)
                          (or_zero (oi_price_modifier opt))) of
        Inl err \<Rightarrow> (Some err, s)
      | Inr (res, s') \<Rightarrow> insert_options c s' qId rest)"

definition POST :: "client \<Rightarrow> store \<Rightarrow> QuestionIn \<Rightarrow> response \<times> store" where
  "POST c s b =
     (if some_blank_label b
      then (NextResponse_json (ErrorBody ''Option labels cannot be empty'') 400, s)
      else
        (case execute c s (InsertQuestion (qi_field b) (qi_text b) (or_empty (qi_subtext b))
                            (qi_type b) (or_empty (qi_hint b)) (qi_validationKey b)
                            (input_config_of b) (qi_next_question_id b)) of
           Inl err \<Rightarrow> (server_error err, s)
         | Inr (insertQ, s1) \<Rightarrow>
            (let qId = lastInsertRowid insertQ in
              (case (case qi_options b of
                       None \<Rightarrow> (None, s1)
                     | Some opts \<Rightarrow>
                         if opts = [] then (None, s1) else insert_options c s1 qId opts) of
                 (Some err, s2) \<Rightarrow> (server_error err, s2)
               | (None, s2) \<Rightarrow>
                  (case execute c s2 (SelectQuestionById qId) of
                     Inl err \<Rightarrow> (server_error err, s2)
                   | Inr (created, s3) \<Rightarrow>
                       (NextResponse_json
                          (CreatedRow (case rows created of [] \<Rightarrow> None | r # rest \<Rightarrow> Some r))
                          201,
                        s3))))))"

subsection \<open>PUT\<close>

text \<open>
  The first guard of PUT is \<open>body.id === undefined\<close>: the case \<open>None\<close> of \<open>qi_id\<close>, the
  body without an id key. It comes before the check of the labels.
\<close>

fun upsert_options :: "client \<Rightarrow> store \<Rightarrow> int \<Rightarrow> int list \<Rightarrow> OptionIn list \<Rightarrow>
    (thrown + int list) \<times> store" where
  "upsert_options c s questionId seenIds [] = (Inr seenIds, s)"
| "upsert_options c s questionId seenIds (opt # rest) =
     (case execute c s (UpsertOption (oi_id opt) questionId (oi_label opt)
                          (oi_next_question_id opt) (or_zero (oi_price_modifier opt))) of
        Inl err \<Rightarrow> (Inl err, s)
      | Inr (result, s') \<Rightarrow>
          let newId = (case oi_id opt of Some i \<Rightarrow> i | None \<Rightarrow> lastInsertRowid result)
          in upsert_options c s' questionId (seenIds @ [newId]) rest)"

definition PUT :: "client \<Rightarrow> store \<Rightarrow> QuestionIn \<Rightarrow> response \<times> store" where
  "PUT c s b =
     (case qi_id b of
        None \<Rightarrow> (NextResponse_json (ErrorBody ''id is required for PUT'') 400, s)
      | Some questionId \<Rightarrow>
          (if some_blank_label b
           then (NextResponse_json (ErrorBody ''Option labels cannot be empty'') 400, s)
           else
             (case execute c s (UpdateQuestion (qi_field b) (qi_text b) (or_empty (qi_subtext b))
                                 (qi_type b) (or_empty (qi_hint b)) (qi_validationKey b)
                                 (input_config_of b) (qi_next_question_id b) questionId) of
                Inl err \<Rightarrow> (server_error err, s)
              | Inr (res1, s1) \<Rightarrow>
                 (case upsert_options c s1 questionId []
                         (case qi_options b of Some opts \<Rightarrow> opts | None \<Rightarrow> []) of
                    (Inl err, s2) \<Rightarrow> (server_error err, s2)
                  | (Inr seenIds, s2) \<Rightarrow>
                     (if seenIds \<noteq> []
                      then (case execute c s2 (DeleteOptionsNotIn questionId seenIds) of
                              Inl err \<Rightarrow> (server_error err, s2)
                            | Inr (res3, s3) \<Rightarrow> (NextResponse_json OkTrue 200, s3))
                      else (NextResponse_json OkTrue 200, s2))))))"

subsection \<open>DELETE\<close>

text \<open>The argument is \<open>Number(params.id)\<close>, for a route parameter that denotes an integer.\<close>

definition DELETE :: "client \<Rightarrow> store \<Rightarrow> int \<Rightarrow> response \<times> store" where
  "DELETE c s i =
     (case execute c s (DeleteQuestion i) of
        Inl err \<Rightarrow> (server_error err, s)
      | Inr (res, s') \<Rightarrow> (NextResponse_json OkTrue 200, s'))"

section \<open>The upsert loop on the rows alone\<close>

text \<open>
  What the loop of PUT does to the rows of \<open>question_options\<close> when every option
  carries its id, written without the store around it: the \<open>DO UPDATE SET\<close> part on
  one row, the statement on the table. These functions serve the proofs about repeated
  updates; an option without id is outside their scope and leaves the table as it is.
\<close>

definition set_values :: "OptionIn \<Rightarrow> option_row \<Rightarrow> option_row" where
  "set_values opt r =
     r\<lparr>o_label := oi_label opt, o_next_question_id := oi_next_question_id opt,
       o_price_modifier := or_zero (oi_price_modifier opt)\<rparr>"

definition overwrite :: "OptionIn \<Rightarrow> option_row \<Rightarrow> option_row" where
  "overwrite opt r = (if oi_id opt = Some (o_id r) then set_values opt r else r)"

definition upsert_resolved :: "int \<Rightarrow> OptionIn \<Rightarrow> option_row list \<Rightarrow> option_row list" where
  "upsert_resolved qid opt tab =
     (case oi_id opt of
        None \<Rightarrow> tab
      | Some i \<Rightarrow>
          if i \<in> o_id ` set tab then map (overwrite opt) tab
          else tab @ [\<lparr>o_id = i, o_question_id = qid, o_label = oi_label opt,
                       o_next_question_id = oi_next_question_id opt,
                       o_price_modifier = or_zero (oi_price_modifier opt)\<rparr>])"

section \<open>Example inputs\<close>

text \<open>A store that accepts every statement, with plain row ids and no cascade.\<close>

definition accepting_client :: client where
  "accepting_client = \<lparr>rejects = (\<lambda>s st. None), autoincrement = False, on_delete_cascade = False\<rparr>"

definition empty_store :: store where
  "empty_store =
     \<lparr>questions = [], question_options = [], seq_questions = 0, seq_question_options = 0,
      last_insert_rowid = 0, journal = []\<rparr>"

text \<open>An ASCII literal as a JavaScript string.\<close>

definition js_of :: "string \<Rightarrow> js_string" where
  "js_of str = map (\<lambda>ch. of_nat (of_char ch)) str"

text \<open>\<open>{field: "age", text: "Your age?", type: "number", next_question_id: null}\<close>\<close>

definition age_question :: QuestionIn where
  "age_question =
     \<lparr>qi_id = None, qi_field = js_of ''age'', qi_text = js_of ''Your age?'', qi_subtext = None,
      qi_type = js_of ''number'', qi_hint = None, qi_validationKey = None, qi_input = None,
      qi_next_question_id = None, qi_options = None\<rparr>"

definition option_in :: "int option \<Rightarrow> string \<Rightarrow> OptionIn" where
  "option_in ido l =
     \<lparr>oi_id = ido, oi_label = js_of l, oi_next_question_id = None, oi_price_modifier = None\<rparr>"

text \<open>
  A store with two questions: question 1 has the options 4 and 5, question 2 has the
  option 6.
\<close>

definition option_row_of :: "int \<Rightarrow> int \<Rightarrow> string \<Rightarrow> option_row" where
  "option_row_of i qid l =
     \<lparr>o_id = i, o_question_id = qid, o_label = js_of l, o_next_question_id = None,
      o_price_modifier = 0\<rparr>"

definition sample_store :: store where
  "sample_store =
     \<lparr>questions =
        [\<lparr>q_id = 1, q_field = js_of ''plan'', q_text = js_of ''Which plan?'',
          q_subtext = js_of ''pick one'', q_type = js_of ''radio'', q_hint = js_of ''any'',
          q_validation_key = Some (js_of ''required''),
          q_input_config = Some (JSON_stringify [(js_of ''min'', JNum 1)]),
          q_next_question_id = Some 2\<rparr>,
         \<lparr>q_id = 2, q_field = js_of ''size'', q_text = js_of ''Which size?'',
          q_subtext = [], q_type = js_of ''radio'', q_hint = [],
          q_validation_key = None, q_input_config = None, q_next_question_id = None\<rparr>],
      question_options =
        [option_row_of 4 1 ''A'', option_row_of 5 1 ''B'', option_row_of 6 2 ''C''],
      seq_questions = 2, seq_question_options = 6, last_insert_rowid = 6, journal = []\<rparr>"

section \<open>Basic facts about the store\<close>

lemmas statement_defs =
  insert_question_def insert_option_def insert_option_row_def select_question_by_id_def
  update_question_def upsert_option_def delete_options_not_in_def delete_question_def
  select_questions_with_options_def

lemmas example_defs =
  accepting_client_def empty_store_def sample_store_def age_question_def option_in_def
  option_row_of_def js_of_def

lemmas handler_defs =
  execute_def NextResponse_json_def server_error_def some_blank_label_def or_empty_def
  or_zero_def input_config_of_def new_option_id_def new_rowid_def trim_def isWhiteSpace_def

lemma new_rowid_greater:
  assumes "i \<in> set ids"
  shows "i < new_rowid autoinc sq ids"
proof -
  define v where "v = (if ids = [] then 1 else Max (set ids) + 1)"
  from assms have "i \<le> Max (set ids)" and "ids \<noteq> []" by auto
  then have less: "i < v" by (simp add: v_def)
  have "new_rowid autoinc sq ids = (if autoinc then max v (sq + 1) else v)"
    by (simp add: new_rowid_def v_def Let_def)
  with less show ?thesis by (simp add: max_def)
qed

lemma new_rowid_fresh: "new_rowid autoinc sq ids \<notin> set ids"
  using new_rowid_greater [of "new_rowid autoinc sq ids" ids autoinc sq] by auto

lemma run_journal: "journal (snd (run c s st)) = journal s"
  by (cases st) (simp_all add: statement_defs Let_def split: option.splits)

lemma execute_Inr:
  "execute c s st = Inr (res, s') \<longleftrightarrow>
     rejects c s st = None \<and> res = fst (run c s st) \<and>
     s' = (snd (run c s st))\<lparr>journal := journal s @ [st]\<rparr>"
proof -
  obtain r t where rt: "run c s st = (r, t)" by (cases "run c s st")
  then have "journal t = journal s" using run_journal [of c s st] by simp
  then show ?thesis using rt
    by (auto simp: execute_def split: option.splits)
qed

section \<open>Validation\<close>

text \<open>A label trims to the empty string exactly when it consists of white space only.\<close>

lemma trim_Nil_iff: "trim s = [] \<longleftrightarrow> (\<forall>ch\<in>set s. isWhiteSpace ch)"
proof -
  have "trim s = [] \<longleftrightarrow> (\<forall>x\<in>set (dropWhile isWhiteSpace s). isWhiteSpace x)"
    by (simp add: trim_def)
  also have "\<dots> \<longleftrightarrow> dropWhile isWhiteSpace s = []"
  proof (cases "dropWhile isWhiteSpace s")
    case Nil
    then show ?thesis by (simp del: dropWhile_eq_Nil_conv)
  next
    case (Cons a rest)
    then have "\<not> isWhiteSpace a"
      using hd_dropWhile [of isWhiteSpace s] by (simp del: dropWhile_eq_Nil_conv)
    with Cons show ?thesis by (simp del: dropWhile_eq_Nil_conv)
  qed
  also have "\<dots> \<longleftrightarrow> (\<forall>ch\<in>set s. isWhiteSpace ch)"
    by simp
  finally show ?thesis .
qed

lemma some_blank_label_iff:
  "some_blank_label b \<longleftrightarrow>
     (\<exists>opts. qi_options b = Some opts \<and>
        (\<exists>opt\<in>set opts. \<forall>ch\<in>set (oi_label opt). isWhiteSpace ch))"
  by (auto simp: some_blank_label_def list_ex_iff trim_Nil_iff split: option.splits)

text \<open>
  Claim C8. A PUT whose body has no id key, so that \<open>body.id\<close> is \<open>undefined\<close>, is
  answered with status 400 and the error "id is required for PUT", and the store is
  left as it was: no statement is executed.
\<close>

theorem PUT_without_id_rejected:
  "qi_id b = None \<Longrightarrow>
     PUT c s b = (\<lparr>status = 400, body = ErrorBody ''id is required for PUT''\<rparr>, s)"
  by (simp add: PUT_def NextResponse_json_def)

theorem PUT_without_id_rejected_witness:
  "qi_id age_question = None \<and>
   PUT accepting_client empty_store age_question =
     (\<lparr>status = 400, body = ErrorBody ''id is required for PUT''\<rparr>, empty_store)"
  using PUT_without_id_rejected [of age_question accepting_client empty_store]
  by (simp add: age_question_def)

text \<open>
  Claim C3, as stated, fails for PUT: the id check comes before the label check, so a
  PUT body without an id key and with a blank option label is answered with the error
  "id is required for PUT", not with "Option labels cannot be empty".
\<close>

theorem blank_label_PUT_without_id_counterexample:
  "trim (oi_label (option_in None '' '')) = [] \<and>
   some_blank_label (age_question\<lparr>qi_options := Some [option_in None '' '']\<rparr>) \<and>
   fst (PUT accepting_client empty_store (age_question\<lparr>qi_options := Some [option_in None '' '']\<rparr>))
     = \<lparr>status = 400, body = ErrorBody ''id is required for PUT''\<rparr> \<and>
   fst (PUT accepting_client empty_store (age_question\<lparr>qi_options := Some [option_in None '' '']\<rparr>))
     \<noteq> \<lparr>status = 400, body = ErrorBody ''Option labels cannot be empty''\<rparr>"
  by (simp add: PUT_def NextResponse_json_def age_question_def option_in_def js_of_def
      some_blank_label_def trim_def isWhiteSpace_def)

text \<open>
  Claim C3, amended. If some option of the body has a label that is empty or consists
  of white space only, POST is answered with status 400 and the error "Option labels
  cannot be empty", and so is PUT unless \<open>body.id\<close> is \<open>undefined\<close>; a PUT body
  without an id key is answered with status 400 and "id is required for PUT". In all
  three cases the store is left as it was: no statement is executed.
\<close>

theorem blank_label_rejected:
  assumes "qi_options b = Some opts" and "opt \<in> set opts"
    and "\<forall>ch\<in>set (oi_label opt). isWhiteSpace ch"
  shows "POST c s b = (\<lparr>status = 400, body = ErrorBody ''Option labels cannot be empty''\<rparr>, s) \<and>
         PUT c s b =
           (\<lparr>status = 400,
             body = ErrorBody (if qi_id b = None then ''id is required for PUT''
                               else ''Option labels cannot be empty'')\<rparr>, s)"
proof -
  have blank: "some_blank_label b"
    using assms by (auto simp: some_blank_label_iff)
  have "POST c s b = (\<lparr>status = 400, body = ErrorBody ''Option labels cannot be empty''\<rparr>, s)"
    using blank by (simp add: POST_def NextResponse_json_def)
  moreover have "PUT c s b =
      (\<lparr>status = 400,
        body = ErrorBody (if qi_id b = None then ''id is required for PUT''
                          else ''Option labels cannot be empty'')\<rparr>, s)"
    using blank by (cases "qi_id b") (simp_all add: PUT_def NextResponse_json_def)
  ultimately show ?thesis by simp
qed

theorem blank_label_rejected_witness:
  "qi_options (age_question\<lparr>qi_id := Some 1, qi_options := Some [option_in (Some 7) '' '']\<rparr>)
     = Some [option_in (Some 7) '' ''] \<and>
   option_in (Some 7) '' '' \<in> set [option_in (Some 7) '' ''] \<and>
   list_all isWhiteSpace (oi_label (option_in (Some 7) '' '')) \<and>
   POST accepting_client empty_store
       (age_question\<lparr>qi_id := Some 1, qi_options := Some [option_in (Some 7) '' '']\<rparr>)
     = (\<lparr>status = 400, body = ErrorBody ''Option labels cannot be empty''\<rparr>, empty_store) \<and>
   PUT accepting_client empty_store
       (age_question\<lparr>qi_id := Some 1, qi_options := Some [option_in (Some 7) '' '']\<rparr>)
     = (\<lparr>status = 400, body = ErrorBody ''Option labels cannot be empty''\<rparr>, empty_store)"
proof -
  have ws: "\<forall>ch\<in>set (oi_label (option_in (Some 7) '' '')). isWhiteSpace ch"
    by (simp add: option_in_def js_of_def isWhiteSpace_def)
  show ?thesis
    using ws blank_label_rejected [of
        "age_question\<lparr>qi_id := Some 1, qi_options := Some [option_in (Some 7) '' '']\<rparr>"
        "[option_in (Some 7) '' '']" "option_in (Some 7) '' ''" accepting_client empty_store]
    by (simp add: list_all_iff)
qed

section \<open>The steps of a completed PUT\<close>

lemma server_error_status: "status (server_error err) = 500"
  by (simp add: server_error_def NextResponse_json_def)

lemma upsert_option_questions:
  "questions (snd (upsert_option c s ido qid l nq pm)) = questions s"
  by (simp add: statement_defs split: option.splits)

lemma upsert_options_questions:
  "upsert_options c s qid seen opts = (out, s') \<Longrightarrow> questions s' = questions s"
proof (induction opts arbitrary: s seen)
  case Nil
  then show ?case by simp
next
  case (Cons opt rest)
  show ?case
  proof (cases "execute c s (UpsertOption (oi_id opt) qid (oi_label opt)
                  (oi_next_question_id opt) (or_zero (oi_price_modifier opt)))")
    case (Inl err)
    with Cons.prems show ?thesis by simp
  next
    case (Inr p)
    obtain res s1 where p: "p = (res, s1)" by (cases p)
    from Inr p have s1: "questions s1 = questions s"
      by (simp add: execute_Inr upsert_option_questions)
    from Cons.prems Inr p have "upsert_options c s1 qid
        (seen @ [case oi_id opt of Some i \<Rightarrow> i | None \<Rightarrow> lastInsertRowid res]) rest = (out, s')"
      by (simp add: Let_def)
    from Cons.IH [OF this] s1 show ?thesis by simp
  qed
qed

text \<open>What a PUT that answers 200 has done, step by step.\<close>

lemma PUT_200_steps:
  assumes "PUT c s b = (resp, s')" and "status resp = 200"
  shows "\<exists>questionId res1 s1 seenIds s2.
    qi_id b = Some questionId \<and> \<not> some_blank_label b \<and>
    execute c s (UpdateQuestion (qi_field b) (qi_text b) (or_empty (qi_subtext b))
           (qi_type b) (or_empty (qi_hint b)) (qi_validationKey b)
           (input_config_of b) (qi_next_question_id b) questionId) = Inr (res1, s1) \<and>
    upsert_options c s1 questionId []
           (case qi_options b of Some opts \<Rightarrow> opts | None \<Rightarrow> []) = (Inr seenIds, s2) \<and>
    (if seenIds = [] then s' = s2
     else \<exists>res3. execute c s2 (DeleteOptionsNotIn questionId seenIds) = Inr (res3, s')) \<and>
    resp = \<lparr>status = 200, body = OkTrue\<rparr>"
proof (cases "qi_id b")
  case None
  with assms show ?thesis by (auto simp: PUT_def NextResponse_json_def)
next
  case (Some questionId)
  let ?upd = "UpdateQuestion (qi_field b) (qi_text b) (or_empty (qi_subtext b))
           (qi_type b) (or_empty (qi_hint b)) (qi_validationKey b)
           (input_config_of b) (qi_next_question_id b) questionId"
  let ?opts = "case qi_options b of Some opts \<Rightarrow> opts | None \<Rightarrow> []"
  from assms Some have valid: "\<not> some_blank_label b"
    by (auto simp: PUT_def NextResponse_json_def)
  from assms Some valid obtain res1 s1 where upd: "execute c s ?upd = Inr (res1, s1)"
    by (cases "execute c s ?upd") (auto simp: PUT_def server_error_status)
  obtain out s2 where loop: "upsert_options c s1 questionId [] ?opts = (out, s2)"
    by (cases "upsert_options c s1 questionId [] ?opts")
  from assms Some valid upd loop obtain seenIds where out: "out = Inr seenIds"
    by (cases out) (auto simp: PUT_def server_error_status)
  have rest: "(if seenIds = [] then s' = s2
     else \<exists>res3. execute c s2 (DeleteOptionsNotIn questionId seenIds) = Inr (res3, s')) \<and>
    resp = \<lparr>status = 200, body = OkTrue\<rparr>"
    using assms Some valid upd loop out
    by (cases "execute c s2 (DeleteOptionsNotIn questionId seenIds)")
       (auto simp: PUT_def server_error_status NextResponse_json_def split: if_splits)
  from Some valid upd loop out rest show ?thesis by blast
qed

section \<open>Update\<close>

lemma update_question_options:
  "question_options (snd (update_question s f t st ty h vk ic nq i)) = question_options s"
  by (simp add: update_question_def)

text \<open>
  Claim C2. When the body of a PUT has an id and its options are absent or the empty
  array, the rows of \<open>question_options\<close> are afterwards exactly what they were, and no
  delete statement is executed: the only statement of the request is the update of the
  question, when the request is answered with 200, and none otherwise.
\<close>

theorem PUT_empty_options_skips_delete:
  assumes "qi_id b = Some questionId" and "qi_options b = None \<or> qi_options b = Some []"
  shows "question_options (snd (PUT c s b)) = question_options s \<and>
         journal (snd (PUT c s b)) = journal s @
           (if status (fst (PUT c s b)) = 200
            then [UpdateQuestion (qi_field b) (qi_text b) (or_empty (qi_subtext b))
                    (qi_type b) (or_empty (qi_hint b)) (qi_validationKey b)
                    (input_config_of b) (qi_next_question_id b) questionId]
            else [])"
proof -
  let ?upd = "UpdateQuestion (qi_field b) (qi_text b) (or_empty (qi_subtext b))
                (qi_type b) (or_empty (qi_hint b)) (qi_validationKey b)
                (input_config_of b) (qi_next_question_id b) questionId"
  from assms(2) have valid: "\<not> some_blank_label b"
    by (auto simp: some_blank_label_def)
  from assms(2) have opts: "(case qi_options b of Some opts \<Rightarrow> opts | None \<Rightarrow> []) = []"
    by auto
  show ?thesis
  proof (cases "execute c s ?upd")
    case (Inl err)
    with assms(1) valid have "PUT c s b = (server_error err, s)"
      by (simp add: PUT_def)
    then show ?thesis by (simp add: server_error_status)
  next
    case (Inr p)
    obtain res1 s1 where p: "p = (res1, s1)" by (cases p)
    with Inr assms(1) valid opts have put: "PUT c s b = (NextResponse_json OkTrue 200, s1)"
      by (simp add: PUT_def)
    from Inr p have "question_options s1 = question_options s"
      and "journal s1 = journal s @ [?upd]"
      by (simp_all add: execute_Inr update_question_options)
    with put show ?thesis by (simp add: NextResponse_json_def)
  qed
qed

theorem PUT_empty_options_skips_delete_witness:
  "qi_id (age_question\<lparr>qi_id := Some 1, qi_options := Some []\<rparr>) = Some 1 \<and>
   qi_options (age_question\<lparr>qi_id := Some 1, qi_options := Some []\<rparr>) = Some [] \<and>
   question_options (snd (PUT accepting_client
       (empty_store\<lparr>question_options :=
          [\<lparr>o_id = 4, o_question_id = 1, o_label = js_of ''A'', o_next_question_id = None,
            o_price_modifier = 0\<rparr>]\<rparr>)
       (age_question\<lparr>qi_id := Some 1, qi_options := Some []\<rparr>)))
     = [\<lparr>o_id = 4, o_question_id = 1, o_label = js_of ''A'', o_next_question_id = None,
         o_price_modifier = 0\<rparr>]"
  using PUT_empty_options_skips_delete [of "age_question\<lparr>qi_id := Some 1, qi_options := Some []\<rparr>" 1
      accepting_client
      "empty_store\<lparr>question_options :=
          [\<lparr>o_id = 4, o_question_id = 1, o_label = js_of ''A'', o_next_question_id = None,
            o_price_modifier = 0\<rparr>]\<rparr>"]
  by simp

lemma delete_options_not_in_questions:
  "questions (snd (delete_options_not_in s qid ids)) = questions s"
  by (simp add: delete_options_not_in_def)

text \<open>
  Claim C6. A PUT that is answered with 200 has replaced, in every row of \<open>questions\<close>
  with the id of the body, all eight other columns by the values of the body, and has
  left every other row as it was. A field the body omits (\<open>None\<close>) is stored as its
  default, not as the previous value: the empty string for subtext and hint, NULL for
  validationKey, input and next_question_id.
\<close>

theorem PUT_overwrites_question:
  assumes "PUT c s b = (resp, s')" and "status resp = 200" and "qi_id b = Some questionId"
  shows "questions s' =
     map (\<lambda>q. if q_id q = questionId
              then \<lparr>q_id = questionId,
                    q_field = qi_field b,
                    q_text = qi_text b,
                    q_subtext = (case qi_subtext b of Some v \<Rightarrow> v | None \<Rightarrow> []),
                    q_type = qi_type b,
                    q_hint = (case qi_hint b of Some v \<Rightarrow> v | None \<Rightarrow> []),
                    q_validation_key = (case qi_validationKey b of Some v \<Rightarrow> Some v | None \<Rightarrow> None),
                    q_input_config =
                      (case qi_input b of Some v \<Rightarrow> Some (JSON_stringify v) | None \<Rightarrow> None),
                    q_next_question_id =
                      (case qi_next_question_id b of Some v \<Rightarrow> Some v | None \<Rightarrow> None)\<rparr>
              else q) (questions s)"
proof -
  from PUT_200_steps [OF assms(1,2)] assms(3) obtain res1 s1 seenIds s2 where
    upd: "execute c s (UpdateQuestion (qi_field b) (qi_text b) (or_empty (qi_subtext b))
           (qi_type b) (or_empty (qi_hint b)) (qi_validationKey b)
           (input_config_of b) (qi_next_question_id b) questionId) = Inr (res1, s1)"
    and loop: "upsert_options c s1 questionId []
           (case qi_options b of Some opts \<Rightarrow> opts | None \<Rightarrow> []) = (Inr seenIds, s2)"
    and del: "if seenIds = [] then s' = s2
       else \<exists>res3. execute c s2 (DeleteOptionsNotIn questionId seenIds) = Inr (res3, s')"
    by auto
  have "questions s' = questions s2"
    using del by (auto simp: execute_Inr delete_options_not_in_questions split: if_splits)
  also have "\<dots> = questions s1"
    using loop by (rule upsert_options_questions)
  also have "\<dots> = questions (snd (update_question s (qi_field b) (qi_text b)
      (or_empty (qi_subtext b)) (qi_type b) (or_empty (qi_hint b)) (qi_validationKey b)
      (input_config_of b) (qi_next_question_id b) questionId))"
    using upd by (simp add: execute_Inr)
  also have "\<dots> = map (\<lambda>q. if q_id q = questionId
              then \<lparr>q_id = questionId,
                    q_field = qi_field b,
                    q_text = qi_text b,
                    q_subtext = (case qi_subtext b of Some v \<Rightarrow> v | None \<Rightarrow> []),
                    q_type = qi_type b,
                    q_hint = (case qi_hint b of Some v \<Rightarrow> v | None \<Rightarrow> []),
                    q_validation_key = (case qi_validationKey b of Some v \<Rightarrow> Some v | None \<Rightarrow> None),
                    q_input_config =
                      (case qi_input b of Some v \<Rightarrow> Some (JSON_stringify v) | None \<Rightarrow> None),
                    q_next_question_id =
                      (case qi_next_question_id b of Some v \<Rightarrow> Some v | None \<Rightarrow> None)\<rparr>
              else q) (questions s)"
    by (auto simp: update_question_def or_empty_def input_config_of_def split: option.splits)
  finally show ?thesis .
qed


theorem PUT_overwrites_question_witness:
  "status (fst (PUT accepting_client sample_store (age_question\<lparr>qi_id := Some 1\<rparr>))) = 200 \<and>
   qi_id (age_question\<lparr>qi_id := Some 1\<rparr>) = Some 1 \<and>
   questions (snd (PUT accepting_client sample_store (age_question\<lparr>qi_id := Some 1\<rparr>))) =
     [\<lparr>q_id = 1, q_field = js_of ''age'', q_text = js_of ''Your age?'',
       q_subtext = [], q_type = js_of ''number'', q_hint = [],
       q_validation_key = None, q_input_config = None, q_next_question_id = None\<rparr>,
      \<lparr>q_id = 2, q_field = js_of ''size'', q_text = js_of ''Which size?'',
       q_subtext = [], q_type = js_of ''radio'', q_hint = [],
       q_validation_key = None, q_input_config = None, q_next_question_id = None\<rparr>]"
proof -
  have ok: "status (fst (PUT accepting_client sample_store (age_question\<lparr>qi_id := Some 1\<rparr>))) = 200"
    by (simp add: PUT_def handler_defs example_defs statement_defs)
  show ?thesis
    using ok PUT_overwrites_question [of accepting_client sample_store
        "age_question\<lparr>qi_id := Some 1\<rparr>"
        "fst (PUT accepting_client sample_store (age_question\<lparr>qi_id := Some 1\<rparr>))"
        "snd (PUT accepting_client sample_store (age_question\<lparr>qi_id := Some 1\<rparr>))" 1]
    by (simp add: example_defs)
qed

section \<open>Missing questions\<close>

lemma upsert_options_accepted:
  assumes "\<forall>t st. rejects c t st = None"
  shows "\<exists>seenIds s'. upsert_options c s qid seen opts = (Inr seenIds, s')"
proof (induction opts arbitrary: s seen)
  case Nil
  show ?case by simp
next
  case (Cons opt rest)
  let ?st = "UpsertOption (oi_id opt) qid (oi_label opt) (oi_next_question_id opt)
               (or_zero (oi_price_modifier opt))"
  from assms obtain res s1 where "execute c s ?st = Inr (res, s1)"
    by (auto simp: execute_Inr)
  with Cons.IH [of s1] show ?case by (simp add: Let_def)
qed

lemma map_if_absent:
  "i \<notin> key ` set xs \<Longrightarrow> map (\<lambda>x. if key x = i then f x else x) xs = xs"
  by (induction xs) auto

text \<open>
  Claim C10. Neither handler looks for the question row. On a store that rejects no
  statement, a PUT with an id and without blank labels, and a DELETE, are both answered
  with 200 and \<open>{ok: true}\<close> although no row of \<open>questions\<close> has the id; the table
  \<open>questions\<close> is then as it was, and DELETE changes no option row either.
\<close>

theorem missing_question_acknowledged:
  assumes "qi_id b = Some i" and "\<not> some_blank_label b"
    and "i \<notin> q_id ` set (questions s)"
    and "\<forall>t st. rejects c t st = None"
  shows "fst (PUT c s b) = \<lparr>status = 200, body = OkTrue\<rparr> \<and>
         questions (snd (PUT c s b)) = questions s \<and>
         fst (DELETE c s i) = \<lparr>status = 200, body = OkTrue\<rparr> \<and>
         questions (snd (DELETE c s i)) = questions s \<and>
         question_options (snd (DELETE c s i)) = question_options s"
proof -
  let ?upd = "UpdateQuestion (qi_field b) (qi_text b) (or_empty (qi_subtext b))
                (qi_type b) (or_empty (qi_hint b)) (qi_validationKey b)
                (input_config_of b) (qi_next_question_id b) i"
  let ?opts = "case qi_options b of Some opts \<Rightarrow> opts | None \<Rightarrow> []"
  from assms(4) obtain res1 s1 where upd: "execute c s ?upd = Inr (res1, s1)"
    by (auto simp: execute_Inr)
  from upsert_options_accepted [OF assms(4)] obtain seenIds s2
    where loop: "upsert_options c s1 i [] ?opts = (Inr seenIds, s2)"
    by blast
  from assms(4) obtain res3 s3
    where del: "execute c s2 (DeleteOptionsNotIn i seenIds) = Inr (res3, s3)"
    by (auto simp: execute_Inr)
  have put: "PUT c s b = (NextResponse_json OkTrue 200, if seenIds \<noteq> [] then s3 else s2)"
    using assms(1,2) upd loop del by (simp add: PUT_def)
  have "questions s3 = questions s2"
    using del by (simp add: execute_Inr delete_options_not_in_questions)
  moreover have "questions s2 = questions s1"
    using loop by (rule upsert_options_questions)
  moreover have "questions s1 = questions s"
    using upd assms(3) by (simp add: execute_Inr update_question_def map_if_absent)
  ultimately have "questions (snd (PUT c s b)) = questions s"
    using put by simp
  moreover have "filter (\<lambda>q. q_id q \<noteq> i) (questions s) = questions s"
    using assms(3) by (auto intro: filter_True)
  then have "DELETE c s i = (NextResponse_json OkTrue 200,
      s\<lparr>journal := journal s @ [DeleteQuestion i]\<rparr>)"
    using assms(3,4) by (simp add: DELETE_def execute_def delete_question_def)
  ultimately show ?thesis
    using put by (simp add: NextResponse_json_def)
qed

theorem missing_question_acknowledged_witness:
  "qi_id (age_question\<lparr>qi_id := Some 9, qi_options := Some [option_in None ''A'']\<rparr>) = Some 9 \<and>
   \<not> some_blank_label (age_question\<lparr>qi_id := Some 9, qi_options := Some [option_in None ''A'']\<rparr>) \<and>
   9 \<notin> q_id ` set (questions sample_store) \<and>
   fst (PUT accepting_client sample_store
          (age_question\<lparr>qi_id := Some 9, qi_options := Some [option_in None ''A'']\<rparr>))
     = \<lparr>status = 200, body = OkTrue\<rparr> \<and>
   fst (DELETE accepting_client sample_store 9) = \<lparr>status = 200, body = OkTrue\<rparr>"
proof -
  have valid: "\<not> some_blank_label
      (age_question\<lparr>qi_id := Some 9, qi_options := Some [option_in None ''A'']\<rparr>)"
    by (simp add: handler_defs example_defs)
  have missing: "9 \<notin> q_id ` set (questions sample_store)"
    by (simp add: example_defs)
  have accepts: "\<forall>t st. rejects accepting_client t st = None"
    by (simp add: accepting_client_def)
  show ?thesis
    using valid missing accepts
      missing_question_acknowledged [of
        "age_question\<lparr>qi_id := Some 9, qi_options := Some [option_in None ''A'']\<rparr>" 9
        sample_store accepting_client]
    by simp
qed

section \<open>Listing\<close>

text \<open>
  Claim C4. Creating the question \<open>{field: "age", text: "Your age?", type: "number",
  next_question_id: null}\<close> in an empty store and then listing gives one aggregate
  whose options are not the empty array: the all-NULL row of the LEFT JOIN goes through
  \<open>json_object\<close>, so the array has one element whose four fields are null.
\<close>

theorem GET_question_without_options:
  "fst (GET accepting_client (snd (POST accepting_client empty_store age_question))) =
     \<lparr>status = 200,
      body = QuestionList
        [\<lparr>qo_id = 1, qo_field = js_of ''age'', qo_text = js_of ''Your age?'', qo_subtext = [],
          qo_type = js_of ''number'', qo_hint = [], qo_validationKey = None, qo_input = None,
          qo_next_question_id = None,
          qo_options =
            [\<lparr>oo_id = None, oo_label = None, oo_next_question_id = None,
              oo_price_modifier = None\<rparr>]\<rparr>]\<rparr>"
  by (simp add: GET_def POST_def handler_defs example_defs statement_defs
      left_join_def group_by_q_id_def)

section \<open>Option rows of other questions\<close>

text \<open>
  Claim C9. The upsert does not look at the owner of the row it hits. On a store that
  rejects no statement, a PUT for one question whose single option carries the id of an
  option row of another question is answered with 200; afterwards that row has the
  label, next question and price modifier of the incoming option, and still its old id
  and \<open>question_id\<close>.
\<close>

theorem PUT_overwrites_foreign_option:
  assumes "qi_id b = Some questionId" and "qi_options b = Some [opt]"
    and "oi_id opt = Some i" and "trim (oi_label opt) \<noteq> []"
    and "r \<in> set (question_options s)" and "o_id r = i"
    and "o_question_id r \<noteq> questionId"
    and "\<forall>t st. rejects c t st = None"
  shows "fst (PUT c s b) = \<lparr>status = 200, body = OkTrue\<rparr> \<and>
         \<lparr>o_id = i, o_question_id = o_question_id r, o_label = oi_label opt,
          o_next_question_id = oi_next_question_id opt,
          o_price_modifier = (case oi_price_modifier opt of Some v \<Rightarrow> v | None \<Rightarrow> 0)\<rparr>
           \<in> set (question_options (snd (PUT c s b)))"
proof -
  let ?upd = "UpdateQuestion (qi_field b) (qi_text b) (or_empty (qi_subtext b))
                (qi_type b) (or_empty (qi_hint b)) (qi_validationKey b)
                (input_config_of b) (qi_next_question_id b) questionId"
  let ?ups = "UpsertOption (Some i) questionId (oi_label opt) (oi_next_question_id opt)
                (or_zero (oi_price_modifier opt))"
  let ?r' = "\<lparr>o_id = i, o_question_id = o_question_id r, o_label = oi_label opt,
          o_next_question_id = oi_next_question_id opt,
          o_price_modifier = (case oi_price_modifier opt of Some v \<Rightarrow> v | None \<Rightarrow> 0)\<rparr>"
  have valid: "\<not> some_blank_label b"
    using assms(2,4) by (simp add: some_blank_label_def)
  from assms(8) obtain res1 s1 where upd: "execute c s ?upd = Inr (res1, s1)"
    by (auto simp: execute_Inr)
  then have s1: "question_options s1 = question_options s"
    by (simp add: execute_Inr update_question_options)
  from assms(8) obtain res2 s2 where ups: "execute c s1 ?ups = Inr (res2, s2)"
    by (auto simp: execute_Inr)
  have present: "i \<in> o_id ` set (question_options s1)"
    using assms(5,6) s1 by auto
  have "r\<lparr>o_label := oi_label opt, o_next_question_id := oi_next_question_id opt,
          o_price_modifier := or_zero (oi_price_modifier opt)\<rparr>
        \<in> set (question_options s2)"
    using ups present assms(5,6) s1
    by (auto simp: execute_Inr upsert_option_def intro!: image_eqI [of _ _ r])
  moreover have "r\<lparr>o_label := oi_label opt, o_next_question_id := oi_next_question_id opt,
          o_price_modifier := or_zero (oi_price_modifier opt)\<rparr> = ?r'"
    using assms(6) by (cases r) (simp add: or_zero_def)
  ultimately have in_s2: "?r' \<in> set (question_options s2)"
    by simp
  from assms(8) obtain res3 s3
    where del: "execute c s2 (DeleteOptionsNotIn questionId [i]) = Inr (res3, s3)"
    by (auto simp: execute_Inr)
  have put: "PUT c s b = (NextResponse_json OkTrue 200, s3)"
    using assms(1,2,3) valid upd ups del by (simp add: PUT_def Let_def)
  have "?r' \<in> set (question_options s3)"
    using del in_s2 assms(7) by (simp add: execute_Inr delete_options_not_in_def)
  with put show ?thesis
    by (simp add: NextResponse_json_def)
qed

theorem PUT_overwrites_foreign_option_witness:
  "qi_id (age_question\<lparr>qi_id := Some 1, qi_options := Some [option_in (Some 6) ''X'']\<rparr>) = Some 1 \<and>
   oi_id (option_in (Some 6) ''X'') = Some 6 \<and>
   trim (oi_label (option_in (Some 6) ''X'')) \<noteq> [] \<and>
   option_row_of 6 2 ''C'' \<in> set (question_options sample_store) \<and>
   o_question_id (option_row_of 6 2 ''C'') \<noteq> 1 \<and>
   option_row_of 6 2 ''X'' \<in> set (question_options (snd (PUT accepting_client sample_store
       (age_question\<lparr>qi_id := Some 1, qi_options := Some [option_in (Some 6) ''X'']\<rparr>))))"
proof -
  have accepts: "\<forall>t st. rejects accepting_client t st = None"
    by (simp add: accepting_client_def)
  have label: "trim (oi_label (option_in (Some 6) ''X'')) \<noteq> []"
    by (simp add: example_defs trim_def isWhiteSpace_def)
  have row: "option_row_of 6 2 ''C'' \<in> set (question_options sample_store)"
    by (simp add: sample_store_def)
  show ?thesis
    using accepts label row
      PUT_overwrites_foreign_option [of
        "age_question\<lparr>qi_id := Some 1, qi_options := Some [option_in (Some 6) ''X'']\<rparr>" 1
        "option_in (Some 6) ''X''" 6 "option_row_of 6 2 ''C''" sample_store accepting_client]
    by (simp add: option_in_def option_row_of_def)
qed

section \<open>Create\<close>

lemma insert_option_effect:
  "questions (snd (insert_option c s qid l nq pm)) = questions s"
  "question_options (snd (insert_option c s qid l nq pm)) =
     question_options s @
       [\<lparr>o_id = new_option_id c s, o_question_id = qid, o_label = l, o_next_question_id = nq,
         o_price_modifier = pm\<rparr>]"
  by (simp_all add: insert_option_def insert_option_row_def)

text \<open>The insert loop of POST executes a prefix of its statements, in order.\<close>

lemma insert_options_journal:
  assumes "insert_options c s qId opts = (out, s')"
  shows "\<exists>n\<le>length opts. (out = None \<longrightarrow> n = length opts) \<and>
     journal s' = journal s @
       map (\<lambda>opt. InsertOption qId (oi_label opt) (oi_next_question_id opt)
                    (or_zero (oi_price_modifier opt))) (take n opts)"
  using assms
proof (induction opts arbitrary: s)
  case Nil
  then show ?case by simp
next
  case (Cons opt rest)
  let ?st = "InsertOption qId (oi_label opt) (oi_next_question_id opt)
               (or_zero (oi_price_modifier opt))"
  show ?case
  proof (cases "execute c s ?st")
    case (Inl err)
    with Cons.prems have "out = Some err" and "s' = s" by simp_all
    then show ?thesis by (intro exI [of _ 0]) simp
  next
    case (Inr p)
    obtain res s1 where p: "p = (res, s1)" by (cases p)
    with Inr Cons.prems have "insert_options c s1 qId rest = (out, s')" by simp
    from Cons.IH [OF this] obtain n where n: "n \<le> length rest"
      "out = None \<longrightarrow> n = length rest"
      "journal s' = journal s1 @
         map (\<lambda>opt. InsertOption qId (oi_label opt) (oi_next_question_id opt)
                      (or_zero (oi_price_modifier opt))) (take n rest)"
      by blast
    from Inr p have "journal s1 = journal s @ [?st]"
      by (simp add: execute_Inr)
    with n show ?thesis by (intro exI [of _ "Suc n"]) simp
  qed
qed

text \<open>When the loop completes, it has appended one row per option, in order.\<close>

lemma insert_options_rows:
  assumes "insert_options c s qId opts = (None, s')"
  shows "questions s' = questions s \<and>
     (\<exists>new_rows. question_options s' = question_options s @ new_rows \<and>
        map (\<lambda>r. (o_question_id r, o_label r, o_next_question_id r, o_price_modifier r)) new_rows =
        map (\<lambda>opt. (qId, oi_label opt, oi_next_question_id opt, or_zero (oi_price_modifier opt)))
          opts)"
  using assms
proof (induction opts arbitrary: s)
  case Nil
  then show ?case by simp
next
  case (Cons opt rest)
  let ?st = "InsertOption qId (oi_label opt) (oi_next_question_id opt)
               (or_zero (oi_price_modifier opt))"
  from Cons.prems obtain res s1 where ex: "execute c s ?st = Inr (res, s1)"
    and rest: "insert_options c s1 qId rest = (None, s')"
    by (cases "execute c s ?st") auto
  from ex have s1: "questions s1 = questions s"
    "question_options s1 = question_options s @
       [\<lparr>o_id = new_option_id c s, o_question_id = qId, o_label = oi_label opt,
         o_next_question_id = oi_next_question_id opt,
         o_price_modifier = or_zero (oi_price_modifier opt)\<rparr>]"
    by (simp_all add: execute_Inr insert_option_effect)
  from Cons.IH [OF rest] obtain new_rows where
    "questions s' = questions s1"
    "question_options s' = question_options s1 @ new_rows"
    "map (\<lambda>r. (o_question_id r, o_label r, o_next_question_id r, o_price_modifier r)) new_rows =
     map (\<lambda>opt. (qId, oi_label opt, oi_next_question_id opt, or_zero (oi_price_modifier opt))) rest"
    by blast
  with s1 show ?case
    by (intro conjI exI [of _ "\<lparr>o_id = new_option_id c s, o_question_id = qId,
         o_label = oi_label opt, o_next_question_id = oi_next_question_id opt,
         o_price_modifier = or_zero (oi_price_modifier opt)\<rparr> # new_rows"]) simp_all
qed


lemma insert_question_effect:
  "fst (insert_question c s f t st ty h vk ic nq) =
     \<lparr>rows = [],
      lastInsertRowid = new_rowid (autoincrement c) (seq_questions s) (map q_id (questions s))\<rparr>"
  "questions (snd (insert_question c s f t st ty h vk ic nq)) =
     questions s @
       [\<lparr>q_id = new_rowid (autoincrement c) (seq_questions s) (map q_id (questions s)),
         q_field = f, q_text = t, q_subtext = st, q_type = ty, q_hint = h,
         q_validation_key = vk, q_input_config = ic, q_next_question_id = nq\<rparr>]"
  "question_options (snd (insert_question c s f t st ty h vk ic nq)) = question_options s"
  by (simp_all add: insert_question_def Let_def)

lemma select_question_by_id_store: "snd (select_question_by_id s i) = s"
  by (simp add: select_question_by_id_def)

text \<open>
  Claim C7. POST executes a prefix of the following statements, in this order: the insert
  of the question row, with subtext and hint defaulting to the empty string and
  validationKey, input and next_question_id to NULL; one insert per option, bound to the
  id generated for the question and with price_modifier defaulting to 0; the select of
  the created row. So no option row is inserted unless the question row was inserted
  before. When POST answers 201, it has executed all of them: \<open>questions\<close> has the new
  row appended, and \<open>question_options\<close> one new row per option, in order.
\<close>

theorem POST_inserts_question_then_options:
  assumes "qId = new_rowid (autoincrement c) (seq_questions s) (map q_id (questions s))"
    and "opts = (case qi_options b of Some os \<Rightarrow> os | None \<Rightarrow> [])"
    and "stmts =
      InsertQuestion (qi_field b) (qi_text b)
          (case qi_subtext b of Some v \<Rightarrow> v | None \<Rightarrow> []) (qi_type b)
          (case qi_hint b of Some v \<Rightarrow> v | None \<Rightarrow> []) (qi_validationKey b)
          (case qi_input b of Some v \<Rightarrow> Some (JSON_stringify v) | None \<Rightarrow> None)
          (qi_next_question_id b)
        # map (\<lambda>opt. InsertOption qId (oi_label opt) (oi_next_question_id opt)
                       (case oi_price_modifier opt of Some v \<Rightarrow> v | None \<Rightarrow> 0)) opts
        @ [SelectQuestionById qId]"
  shows "(\<exists>n. journal (snd (POST c s b)) = journal s @ take n stmts) \<and>
     (status (fst (POST c s b)) = 201 \<longrightarrow>
        journal (snd (POST c s b)) = journal s @ stmts \<and>
        qId \<notin> q_id ` set (questions s) \<and>
        questions (snd (POST c s b)) = questions s @
          [\<lparr>q_id = qId, q_field = qi_field b, q_text = qi_text b,
            q_subtext = (case qi_subtext b of Some v \<Rightarrow> v | None \<Rightarrow> []),
            q_type = qi_type b,
            q_hint = (case qi_hint b of Some v \<Rightarrow> v | None \<Rightarrow> []),
            q_validation_key = qi_validationKey b,
            q_input_config =
              (case qi_input b of Some v \<Rightarrow> Some (JSON_stringify v) | None \<Rightarrow> None),
            q_next_question_id = qi_next_question_id b\<rparr>] \<and>
        (\<exists>new_rows. question_options (snd (POST c s b)) = question_options s @ new_rows \<and>
           map (\<lambda>r. (o_question_id r, o_label r, o_next_question_id r, o_price_modifier r))
               new_rows =
           map (\<lambda>opt. (qId, oi_label opt, oi_next_question_id opt,
                        case oi_price_modifier opt of Some v \<Rightarrow> v | None \<Rightarrow> 0)) opts))"
proof -
  let ?insQ = "InsertQuestion (qi_field b) (qi_text b) (or_empty (qi_subtext b)) (qi_type b)
      (or_empty (qi_hint b)) (qi_validationKey b) (input_config_of b) (qi_next_question_id b)"
  let ?insO = "\<lambda>opt. InsertOption qId (oi_label opt) (oi_next_question_id opt)
      (or_zero (oi_price_modifier opt))"
  have stmts: "stmts = ?insQ # map ?insO opts @ [SelectQuestionById qId]"
    using assms(3) by (simp add: or_empty_def or_zero_def input_config_of_def)
  have fresh: "qId \<notin> q_id ` set (questions s)"
    using new_rowid_fresh [of "autoincrement c" "seq_questions s" "map q_id (questions s)"]
    by (simp add: assms(1))
  show ?thesis
  proof (cases "some_blank_label b")
    case True
    then have "POST c s b = (NextResponse_json (ErrorBody ''Option labels cannot be empty'') 400, s)"
      by (simp add: POST_def)
    then show ?thesis
      by (auto simp: NextResponse_json_def intro: exI [of _ 0])
  next
    case valid: False
    show ?thesis
    proof (cases "execute c s ?insQ")
      case (Inl err)
      with valid have "POST c s b = (server_error err, s)"
        by (simp add: POST_def)
      then show ?thesis
        by (auto simp: server_error_status intro: exI [of _ 0])
    next
      case (Inr p)
      obtain insertQ s1 where p: "p = (insertQ, s1)" by (cases p)
      from Inr p have s1: "lastInsertRowid insertQ = qId"
        "journal s1 = journal s @ [?insQ]"
        "questions s1 = questions s @
          [\<lparr>q_id = qId, q_field = qi_field b, q_text = qi_text b,
            q_subtext = or_empty (qi_subtext b), q_type = qi_type b,
            q_hint = or_empty (qi_hint b), q_validation_key = qi_validationKey b,
            q_input_config = input_config_of b,
            q_next_question_id = qi_next_question_id b\<rparr>]"
        "question_options s1 = question_options s"
        by (simp_all add: execute_Inr insert_question_effect assms(1))
      obtain out s2 where loop: "insert_options c s1 qId opts = (out, s2)"
        by (cases "insert_options c s1 qId opts")
      have loop': "(case qi_options b of
                    None \<Rightarrow> (None, s1)
                  | Some os \<Rightarrow>
                      if os = [] then (None, s1)
                      else insert_options c s1 (lastInsertRowid insertQ) os)
                 = (out, s2)"
        using loop assms(2) s1(1) by (auto split: option.splits)
      from insert_options_journal [OF loop] obtain n where n: "n \<le> length opts"
        "out = None \<longrightarrow> n = length opts"
        "journal s2 = journal s1 @ map ?insO (take n opts)"
        by blast
      have j2: "journal s2 = journal s @ take (Suc n) stmts"
        using n s1(2) by (simp add: stmts take_map)
      show ?thesis
      proof (cases out)
        case (Some err)
        with valid Inr p s1(1) loop' have "POST c s b = (server_error err, s2)"
          by (simp add: POST_def Let_def)
        with j2 show ?thesis
          by (auto simp: server_error_status)
      next
        case None
        with n have full: "journal s2 = journal s @ ?insQ # map ?insO opts"
          using s1(2) by simp
        from loop None insert_options_rows [of c s1 qId opts s2] obtain new_rows where
          rows: "questions s2 = questions s1"
          "question_options s2 = question_options s1 @ new_rows"
          "map (\<lambda>r. (o_question_id r, o_label r, o_next_question_id r, o_price_modifier r))
               new_rows =
           map (\<lambda>opt. (qId, oi_label opt, oi_next_question_id opt,
                        or_zero (oi_price_modifier opt))) opts"
          by blast
        show ?thesis
        proof (cases "execute c s2 (SelectQuestionById qId)")
          case (Inl err)
          with valid Inr p s1(1) loop' None have "POST c s b = (server_error err, s2)"
            by (simp add: POST_def Let_def)
          moreover have "journal s2 = journal s @ take (Suc (length opts)) stmts"
            using full by (simp add: stmts)
          ultimately show ?thesis
            by (auto simp: server_error_status)
        next
          case sel: (Inr p')
          obtain created s3 where p': "p' = (created, s3)" by (cases p')
          with valid Inr p s1(1) loop' None sel have post: "snd (POST c s b) = s3"
            by (simp add: POST_def Let_def)
          from sel p' have s3: "journal s3 = journal s2 @ [SelectQuestionById qId]"
            "questions s3 = questions s2" "question_options s3 = question_options s2"
            by (simp_all add: execute_Inr select_question_by_id_store)
          have j3: "journal s3 = journal s @ stmts"
            using s3(1) full by (simp add: stmts)
          then have "journal s3 = journal s @ take (length stmts) stmts"
            by simp
          then have "\<exists>n. journal s3 = journal s @ take n stmts" ..
          moreover have "questions s3 = questions s @
            [\<lparr>q_id = qId, q_field = qi_field b, q_text = qi_text b,
              q_subtext = (case qi_subtext b of Some v \<Rightarrow> v | None \<Rightarrow> []),
              q_type = qi_type b,
              q_hint = (case qi_hint b of Some v \<Rightarrow> v | None \<Rightarrow> []),
              q_validation_key = qi_validationKey b,
              q_input_config =
                (case qi_input b of Some v \<Rightarrow> Some (JSON_stringify v) | None \<Rightarrow> None),
              q_next_question_id = qi_next_question_id b\<rparr>]"
            using s3(2) rows(1) s1(3) by (simp add: or_empty_def input_config_of_def)
          moreover have "\<exists>new_rows. question_options s3 = question_options s @ new_rows \<and>
             map (\<lambda>r. (o_question_id r, o_label r, o_next_question_id r, o_price_modifier r))
                 new_rows =
             map (\<lambda>opt. (qId, oi_label opt, oi_next_question_id opt,
                          case oi_price_modifier opt of Some v \<Rightarrow> v | None \<Rightarrow> 0)) opts"
            using s3(3) rows(2,3) s1(4) by (auto simp: or_zero_def)
          ultimately show ?thesis
            using post j3 fresh by simp
        qed
      qed
    qed
  qed
qed


theorem POST_inserts_question_then_options_witness:
  "status (fst (POST accepting_client sample_store
       (age_question\<lparr>qi_options := Some [option_in None ''A'']\<rparr>))) = 201 \<and>
   journal (snd (POST accepting_client sample_store
       (age_question\<lparr>qi_options := Some [option_in None ''A'']\<rparr>))) =
     [InsertQuestion (js_of ''age'') (js_of ''Your age?'') [] (js_of ''number'') [] None None None,
      InsertOption 3 (js_of ''A'') None 0,
      SelectQuestionById 3] \<and>
   map q_id (questions (snd (POST accepting_client sample_store
       (age_question\<lparr>qi_options := Some [option_in None ''A'']\<rparr>)))) = [1, 2, 3]"
proof -
  have created: "status (fst (POST accepting_client sample_store
       (age_question\<lparr>qi_options := Some [option_in None ''A'']\<rparr>))) = 201"
    by (simp add: POST_def handler_defs example_defs statement_defs)
  show ?thesis
    using created
      POST_inserts_question_then_options [OF refl refl refl, of accepting_client sample_store
        "age_question\<lparr>qi_options := Some [option_in None ''A'']\<rparr>"]
    by (simp add: example_defs new_rowid_def)
qed

section \<open>Reconciling the options\<close>


lemma upsert_option_conflict:
  "i \<in> o_id ` set (question_options s) \<Longrightarrow>
   question_options (snd (upsert_option c s (Some i) qid l nq pm)) =
     map (\<lambda>r. if o_id r = i
              then r\<lparr>o_label := l, o_next_question_id := nq, o_price_modifier := pm\<rparr>
              else r) (question_options s)"
  by (simp add: upsert_option_def)

lemma upsert_option_no_conflict:
  "i \<notin> o_id ` set (question_options s) \<Longrightarrow>
   question_options (snd (upsert_option c s (Some i) qid l nq pm)) =
     question_options s @
       [\<lparr>o_id = i, o_question_id = qid, o_label = l,
         o_next_question_id = nq, o_price_modifier = pm\<rparr>]"
  by (simp add: upsert_option_def insert_option_row_def)




text \<open>One round of the upsert loop that is followed by a completed rest of the loop.\<close>

lemma upsert_options_Cons:
  assumes "upsert_options c s qid seen (opt # rest) = (Inr seen', s')"
  obtains res s1 where
    "execute c s (UpsertOption (oi_id opt) qid (oi_label opt) (oi_next_question_id opt)
       (or_zero (oi_price_modifier opt))) = Inr (res, s1)"
    and "upsert_options c s1 qid
       (seen @ [case oi_id opt of Some i \<Rightarrow> i | None \<Rightarrow> lastInsertRowid res]) rest
       = (Inr seen', s')"
proof (cases "execute c s (UpsertOption (oi_id opt) qid (oi_label opt)
    (oi_next_question_id opt) (or_zero (oi_price_modifier opt)))")
  case (Inl err)
  with assms show ?thesis by simp
next
  case (Inr p)
  obtain res s1 where "p = (res, s1)" by (cases p)
  with Inr assms that show ?thesis by (simp add: Let_def)
qed

lemma executed_upsert:
  assumes "execute c s (UpsertOption ido qid l nq pm) = Inr (res, s1)"
  shows "question_options s1 = question_options (snd (upsert_option c s ido qid l nq pm))"
    and "res = fst (upsert_option c s ido qid l nq pm)"
    and "journal s1 = journal s @ [UpsertOption ido qid l nq pm]"
  using assms by (simp_all add: execute_Inr)





lemma executed_delete_options:
  assumes "execute c s (DeleteOptionsNotIn qid ids) = Inr (res, s')"
  shows "question_options s' =
      filter (\<lambda>r. \<not> (o_question_id r = qid \<and> o_id r \<notin> set ids)) (question_options s)"
    and "questions s' = questions s"
    and "journal s' = journal s @ [DeleteOptionsNotIn qid ids]"
  using assms by (simp_all add: execute_Inr delete_options_not_in_def)



section \<open>Repeating an update\<close>

lemma overwrite_keys [simp]:
  "o_id (overwrite opt r) = o_id r" "o_question_id (overwrite opt r) = o_question_id r"
  by (simp_all add: overwrite_def set_values_def)

lemma fold_overwrite_keys [simp]:
  "o_id (fold overwrite opts r) = o_id r"
  "o_question_id (fold overwrite opts r) = o_question_id r"
  by (induction opts arbitrary: r) simp_all

text \<open>The values an option writes do not depend on what the row held before.\<close>

lemma set_values_agree:
  "o_id x = o_id y \<Longrightarrow> o_question_id x = o_question_id y \<Longrightarrow>
   set_values opt x = set_values opt y"
  by (cases x, cases y) (simp add: set_values_def)

lemma set_values_twice [simp]: "set_values opt (set_values opt r) = set_values opt r"
  by (simp add: set_values_def)

text \<open>The loop on a store, when it completes, is the loop on the rows.\<close>

lemma upsert_option_resolved:
  "oi_id opt = Some i \<Longrightarrow>
   question_options (snd (upsert_option c s (Some i) qid (oi_label opt)
      (oi_next_question_id opt) (or_zero (oi_price_modifier opt))))
   = upsert_resolved qid opt (question_options s)"
  by (cases "i \<in> o_id ` set (question_options s)")
     (simp_all add: upsert_resolved_def upsert_option_conflict upsert_option_no_conflict
        overwrite_def set_values_def cong: map_cong)

lemma upsert_options_resolved:
  assumes "upsert_options c s qid seen opts = (Inr seen', s')"
    and "\<forall>opt\<in>set opts. oi_id opt \<noteq> None"
  shows "question_options s' = fold (upsert_resolved qid) opts (question_options s) \<and>
         seen' = seen @ map (\<lambda>opt. the (oi_id opt)) opts"
  using assms
proof (induction opts arbitrary: s seen)
  case Nil
  then show ?case by auto
next
  case (Cons opt rest)
  from Cons.prems(1) obtain res s1 where
    ex: "execute c s (UpsertOption (oi_id opt) qid (oi_label opt) (oi_next_question_id opt)
           (or_zero (oi_price_modifier opt))) = Inr (res, s1)"
    and rest: "upsert_options c s1 qid
       (seen @ [case oi_id opt of Some i \<Rightarrow> i | None \<Rightarrow> lastInsertRowid res]) rest
       = (Inr seen', s')"
    by (rule upsert_options_Cons)
  from Cons.prems(2) obtain i where i: "oi_id opt = Some i" by auto
  from executed_upsert(1) [OF ex] i
  have s1: "question_options s1 = upsert_resolved qid opt (question_options s)"
    by (simp add: upsert_option_resolved)
  from Cons.prems(2) have "\<forall>opt\<in>set rest. oi_id opt \<noteq> None" by simp
  from Cons.IH [OF rest this] s1 i show ?case by simp
qed

lemma upsert_resolved_ids:
  "o_id ` set (upsert_resolved qid opt tab) =
     o_id ` set tab \<union> (case oi_id opt of None \<Rightarrow> {} | Some i \<Rightarrow> {i})"
proof (cases "oi_id opt")
  case None
  then show ?thesis by (simp add: upsert_resolved_def)
next
  case (Some i)
  have "o_id ` set (map (overwrite opt) tab) = o_id ` set tab"
    by (simp add: image_image)
  with Some show ?thesis
    by (cases "i \<in> o_id ` set tab") (auto simp: upsert_resolved_def simp del: set_map)
qed

lemma fold_upsert_resolved_ids:
  assumes "\<forall>opt\<in>set opts. oi_id opt \<noteq> None"
  shows "o_id ` set (fold (upsert_resolved qid) opts tab) =
     o_id ` set tab \<union> (\<lambda>opt. the (oi_id opt)) ` set opts"
  using assms
proof (induction opts arbitrary: tab)
  case Nil
  show ?case by simp
next
  case (Cons opt rest)
  from Cons.prems obtain i where i: "oi_id opt = Some i" by auto
  from Cons.prems have "\<forall>opt\<in>set rest. oi_id opt \<noteq> None" by simp
  from Cons.IH [OF this, of "upsert_resolved qid opt tab"] i show ?case
    by (auto simp: upsert_resolved_ids)
qed

text \<open>When every id is the id of a row, the loop only rewrites rows.\<close>

lemma fold_upsert_resolved_map:
  assumes "\<forall>opt\<in>set opts. \<exists>i. oi_id opt = Some i \<and> i \<in> o_id ` set tab"
  shows "fold (upsert_resolved qid) opts tab = map (fold overwrite opts) tab"
  using assms
proof (induction opts arbitrary: tab)
  case Nil
  show ?case by simp
next
  case (Cons opt rest)
  from Cons.prems obtain i where i: "oi_id opt = Some i" "i \<in> o_id ` set tab" by auto
  then have step: "upsert_resolved qid opt tab = map (overwrite opt) tab"
    by (simp add: upsert_resolved_def)
  have "o_id ` set (map (overwrite opt) tab) = o_id ` set tab"
    by (simp add: image_image)
  with Cons.prems have "\<forall>x\<in>set rest. \<exists>i. oi_id x = Some i \<and> i \<in> o_id ` set (map (overwrite opt) tab)"
    by simp
  from Cons.IH [OF this] step show ?case by simp
qed

text \<open>The last option that carries the id of a row decides what the row holds.\<close>

lemma last_overwrite:
  assumes "oi_id opt = Some (o_id r)"
  shows "overwrite opt (fold overwrite opts r) = set_values opt r"
proof -
  have "overwrite opt (fold overwrite opts r) = set_values opt (fold overwrite opts r)"
    using assms by (simp add: overwrite_def)
  also have "\<dots> = set_values opt r"
    by (rule set_values_agree) simp_all
  finally show ?thesis .
qed

text \<open>After the loop, every row holds what the loop would write to it again.\<close>

lemma fold_upsert_resolved_stable:
  assumes "\<forall>opt\<in>set opts. oi_id opt \<noteq> None"
  shows "\<forall>r\<in>set (fold (upsert_resolved qid) opts tab). fold overwrite opts r = r"
  using assms
proof (induction opts rule: rev_induct)
  case Nil
  show ?case by simp
next
  case (snoc opt opts)
  from snoc.prems obtain i where i: "oi_id opt = Some i" by auto
  let ?tab = "fold (upsert_resolved qid) opts tab"
  from snoc have IH: "\<forall>r\<in>set ?tab. fold overwrite opts r = r" by simp
  have old: "overwrite opt (fold overwrite opts (overwrite opt r)) = overwrite opt r"
    if "r \<in> set ?tab" for r
  proof (cases "o_id r = i")
    case True
    with i have "overwrite opt r = set_values opt r" by (simp add: overwrite_def)
    moreover have "overwrite opt (fold overwrite opts (set_values opt r))
        = set_values opt (set_values opt r)"
      using i True by (intro last_overwrite) (simp add: set_values_def)
    ultimately show ?thesis by simp
  next
    case False
    with i have "overwrite opt r = r" by (simp add: overwrite_def)
    with IH that show ?thesis by simp
  qed
  show ?case
  proof
    fix r assume r: "r \<in> set (fold (upsert_resolved qid) (opts @ [opt]) tab)"
    show "fold overwrite (opts @ [opt]) r = r"
    proof (cases "i \<in> o_id ` set ?tab")
      case True
      with r i obtain r0 where "r0 \<in> set ?tab" "r = overwrite opt r0"
        by (auto simp: upsert_resolved_def)
      with old [of r0] show ?thesis by simp
    next
      case False
      let ?new = "\<lparr>o_id = i, o_question_id = qid, o_label = oi_label opt,
                       o_next_question_id = oi_next_question_id opt,
                       o_price_modifier = or_zero (oi_price_modifier opt)\<rparr>"
      from r i False consider "r \<in> set ?tab" | "r = ?new"
        by (auto simp: upsert_resolved_def)
      then show ?thesis
      proof cases
        case 1
        with False have "o_id r \<noteq> i" by auto
        with i have "overwrite opt r = r" by (simp add: overwrite_def)
        with old [OF 1] show ?thesis by simp
      next
        case 2
        have "overwrite opt (fold overwrite opts ?new) = set_values opt ?new"
          using i by (intro last_overwrite) simp
        also have "\<dots> = ?new" by (simp add: set_values_def)
        finally show ?thesis using 2 by simp
      qed
    qed
  qed
qed

text \<open>Repeating the loop and the delete on their own result changes nothing.\<close>

lemma reconcile_twice:
  assumes resolved: "\<forall>opt\<in>set opts. oi_id opt \<noteq> None"
    and tab1: "tab1 = filter (\<lambda>r. \<not> (o_question_id r = qid \<and>
                  o_id r \<notin> set (map (\<lambda>opt. the (oi_id opt)) opts)))
                (fold (upsert_resolved qid) opts tab)"
  shows "fold (upsert_resolved qid) opts tab1 = tab1"
proof -
  let ?tab = "fold (upsert_resolved qid) opts tab"
  have present: "\<exists>i. oi_id opt = Some i \<and> i \<in> o_id ` set tab1" if "opt \<in> set opts" for opt
  proof -
    from resolved that obtain i where i: "oi_id opt = Some i" by auto
    with that have "i \<in> (\<lambda>opt. the (oi_id opt)) ` set opts"
      by (auto intro: rev_image_eqI)
    then have "i \<in> o_id ` set ?tab"
      by (simp add: fold_upsert_resolved_ids [OF resolved])
    then obtain r where r: "r \<in> set ?tab" "o_id r = i" by auto
    with i that have "o_id r \<in> set (map (\<lambda>opt. the (oi_id opt)) opts)"
      by (auto intro: rev_image_eqI)
    with r(1) have "r \<in> set tab1" by (simp add: tab1)
    with r(2) i show ?thesis by (auto intro: rev_image_eqI)
  qed
  then have "fold (upsert_resolved qid) opts tab1 = map (fold overwrite opts) tab1"
    by (intro fold_upsert_resolved_map) blast
  also have "\<dots> = tab1"
  proof (rule map_idI)
    fix r assume "r \<in> set tab1"
    then have "r \<in> set ?tab" by (simp add: tab1)
    with fold_upsert_resolved_stable [OF resolved, of qid tab]
    show "fold overwrite opts r = r" by blast
  qed
  finally show ?thesis .
qed

lemma update_question_twice:
  assumes "questions s1 = questions (snd (update_question s f t st ty h vk ic nq i))"
  shows "questions (snd (update_question s1 f t st ty h vk ic nq i)) = questions s1"
  by (simp add: update_question_def assms)

text \<open>The tables after a PUT that is answered with 200, when every option carries its id.\<close>

lemma PUT_200_resolved:
  assumes "PUT c s b = (resp, s')" and "status resp = 200"
    and "qi_id b = Some qid"
    and "opts = (case qi_options b of Some os \<Rightarrow> os | None \<Rightarrow> [])"
    and "\<forall>opt\<in>set opts. oi_id opt \<noteq> None"
  shows "questions s' = questions (snd (update_question s (qi_field b) (qi_text b)
           (or_empty (qi_subtext b)) (qi_type b) (or_empty (qi_hint b)) (qi_validationKey b)
           (input_config_of b) (qi_next_question_id b) qid))"
    and "question_options s' =
         (if opts = [] then question_options s
          else filter (\<lambda>r. \<not> (o_question_id r = qid \<and>
                  o_id r \<notin> set (map (\<lambda>opt. the (oi_id opt)) opts)))
                (fold (upsert_resolved qid) opts (question_options s)))"
proof -
  from PUT_200_steps [OF assms(1,2)] assms(3,4) obtain res1 s1 seenIds s2 where
    upd: "execute c s (UpdateQuestion (qi_field b) (qi_text b) (or_empty (qi_subtext b))
           (qi_type b) (or_empty (qi_hint b)) (qi_validationKey b)
           (input_config_of b) (qi_next_question_id b) qid) = Inr (res1, s1)"
    and loop: "upsert_options c s1 qid [] opts = (Inr seenIds, s2)"
    and del: "if seenIds = [] then s' = s2
       else \<exists>res3. execute c s2 (DeleteOptionsNotIn qid seenIds) = Inr (res3, s')"
    by auto
  from upd have s1: "question_options s1 = question_options s"
    "questions s1 = questions (snd (update_question s (qi_field b) (qi_text b)
           (or_empty (qi_subtext b)) (qi_type b) (or_empty (qi_hint b)) (qi_validationKey b)
           (input_config_of b) (qi_next_question_id b) qid))"
    by (simp_all add: execute_Inr update_question_options)
  from upsert_options_resolved [OF loop assms(5)] s1(1)
  have s2: "question_options s2 = fold (upsert_resolved qid) opts (question_options s)"
    "seenIds = map (\<lambda>opt. the (oi_id opt)) opts"
    by simp_all
  have q2: "questions s2 = questions s1"
    using loop by (rule upsert_options_questions)
  show "questions s' = questions (snd (update_question s (qi_field b) (qi_text b)
           (or_empty (qi_subtext b)) (qi_type b) (or_empty (qi_hint b)) (qi_validationKey b)
           (input_config_of b) (qi_next_question_id b) qid))"
    using del q2 s1(2) by (auto simp: executed_delete_options split: if_splits)
  show "question_options s' =
         (if opts = [] then question_options s
          else filter (\<lambda>r. \<not> (o_question_id r = qid \<and>
                  o_id r \<notin> set (map (\<lambda>opt. the (oi_id opt)) opts)))
                (fold (upsert_resolved qid) opts (question_options s)))"
  proof (cases "opts = []")
    case True
    with s2 del show ?thesis by simp
  next
    case False
    with s2(2) have "seenIds \<noteq> []" by simp
    with del obtain res3 where "execute c s2 (DeleteOptionsNotIn qid seenIds) = Inr (res3, s')"
      by auto
    from executed_delete_options(1) [OF this] s2 False show ?thesis by simp
  qed
qed

text \<open>
  Claim C5. When every option of the body carries an id, a PUT answered with 200 and
  followed by a second PUT with the same body, also answered with 200, leaves the rows
  of \<open>questions\<close> and of \<open>question_options\<close> as they were after the first: the second
  request inserts no row and changes none.
\<close>

theorem PUT_twice_same_rows:
  assumes "PUT c s b = (resp1, s1)" and "status resp1 = 200"
    and "PUT c' s1 b = (resp2, s2)" and "status resp2 = 200"
    and "\<forall>opt\<in>set (case qi_options b of Some os \<Rightarrow> os | None \<Rightarrow> []). oi_id opt \<noteq> None"
  shows "questions s2 = questions s1 \<and> question_options s2 = question_options s1"
proof -
  let ?opts = "case qi_options b of Some os \<Rightarrow> os | None \<Rightarrow> []"
  let ?keep = "\<lambda>qid r. \<not> (o_question_id r = qid \<and>
                  o_id r \<notin> set (map (\<lambda>opt. the (oi_id opt)) ?opts))"
  from PUT_200_steps [OF assms(1,2)] obtain qid where qid: "qi_id b = Some qid"
    by blast
  note first = PUT_200_resolved [OF assms(1,2) qid refl assms(5)]
  note second = PUT_200_resolved [OF assms(3,4) qid refl assms(5)]
  have "questions s2 = questions s1"
    using second(1) update_question_twice [OF first(1)] by simp
  moreover have "question_options s2 = question_options s1"
  proof (cases "?opts = []")
    case True
    with second(2) show ?thesis by simp
  next
    case False
    with first(2) have tab1: "question_options s1 =
        filter (?keep qid) (fold (upsert_resolved qid) ?opts (question_options s))"
      by simp
    from reconcile_twice [OF assms(5) tab1]
    have "fold (upsert_resolved qid) ?opts (question_options s1) = question_options s1" .
    with second(2) False have "question_options s2 = filter (?keep qid) (question_options s1)"
      by simp
    also have "\<dots> = question_options s1"
      by (subst (1 2) tab1) simp
    finally show ?thesis .
  qed
  ultimately show ?thesis by simp
qed

theorem PUT_twice_same_rows_witness:
  "status (fst (PUT accepting_client sample_store
      (age_question\<lparr>qi_id := Some 1,
         qi_options := Some [option_in (Some 4) ''A2'', option_in (Some 9) ''N'']\<rparr>))) = 200 \<and>
   status (fst (PUT accepting_client
      (snd (PUT accepting_client sample_store
        (age_question\<lparr>qi_id := Some 1,
           qi_options := Some [option_in (Some 4) ''A2'', option_in (Some 9) ''N'']\<rparr>)))
      (age_question\<lparr>qi_id := Some 1,
         qi_options := Some [option_in (Some 4) ''A2'', option_in (Some 9) ''N'']\<rparr>))) = 200 \<and>
   list_all (\<lambda>opt. oi_id opt \<noteq> None) [option_in (Some 4) ''A2'', option_in (Some 9) ''N''] \<and>
   question_options (snd (PUT accepting_client
      (snd (PUT accepting_client sample_store
        (age_question\<lparr>qi_id := Some 1,
           qi_options := Some [option_in (Some 4) ''A2'', option_in (Some 9) ''N'']\<rparr>)))
      (age_question\<lparr>qi_id := Some 1,
         qi_options := Some [option_in (Some 4) ''A2'', option_in (Some 9) ''N'']\<rparr>)))
     = [option_row_of 4 1 ''A2'', option_row_of 6 2 ''C'', option_row_of 9 1 ''N'']"
proof -
  let ?b = "age_question\<lparr>qi_id := Some 1,
         qi_options := Some [option_in (Some 4) ''A2'', option_in (Some 9) ''N'']\<rparr>"
  let ?s1 = "snd (PUT accepting_client sample_store ?b)"
  have first: "status (fst (PUT accepting_client sample_store ?b)) = 200"
    and rows: "question_options ?s1 =
      [option_row_of 4 1 ''A2'', option_row_of 6 2 ''C'', option_row_of 9 1 ''N'']"
    by (simp_all add: PUT_def handler_defs example_defs statement_defs)
  have accepts: "\<forall>t st. rejects accepting_client t st = None"
    by (simp add: accepting_client_def)
  have valid: "\<not> some_blank_label ?b"
    by (simp add: handler_defs example_defs)
  obtain seenIds s2 where loop: "upsert_options accepting_client
      (snd (update_question ?s1 (qi_field ?b) (qi_text ?b) (or_empty (qi_subtext ?b))
         (qi_type ?b) (or_empty (qi_hint ?b)) (qi_validationKey ?b) (input_config_of ?b)
         (qi_next_question_id ?b) 1)
       \<lparr>journal := journal ?s1 @ [UpdateQuestion (qi_field ?b) (qi_text ?b)
         (or_empty (qi_subtext ?b)) (qi_type ?b) (or_empty (qi_hint ?b)) (qi_validationKey ?b)
         (input_config_of ?b) (qi_next_question_id ?b) 1]\<rparr>) 1 []
      [option_in (Some 4) ''A2'', option_in (Some 9) ''N''] = (Inr seenIds, s2)"
    using upsert_options_accepted [OF accepts] by blast
  have second: "status (fst (PUT accepting_client ?s1 ?b)) = 200"
    using valid loop
    by (simp add: PUT_def execute_def accepting_client_def NextResponse_json_def
        split: prod.splits)
  have resolved: "\<forall>opt\<in>set (case qi_options ?b of Some os \<Rightarrow> os | None \<Rightarrow> []). oi_id opt \<noteq> None"
    by (simp add: option_in_def)
  from PUT_twice_same_rows [of accepting_client sample_store ?b
      "fst (PUT accepting_client sample_store ?b)" ?s1 accepting_client
      "fst (PUT accepting_client ?s1 ?b)" "snd (PUT accepting_client ?s1 ?b)",
      OF _ first _ second resolved]
  have "question_options (snd (PUT accepting_client ?s1 ?b)) = question_options ?s1"
    by simp
  with first second rows show ?thesis
    by (simp add: option_in_def)
qed

end
